theory Spec2Isabelle
  imports Main "HOL-Library.Word" "HOL-Library.Sublist"
begin

section \<open>Text of a document line\<close>

text \<open>
  The extension is written in TypeScript.  A string of the source is a sequence of
  UTF-16 code units, and a regular expression without the \<open>u\<close> flag matches code unit
  by code unit, so a line of a document is a list of 16-bit words.  The fixed literals
  of the source (messages, command identifiers, labels) are plain ASCII and are kept as
  \<open>string\<close>.
\<close>

type_synonym code_unit = "16 word"
type_synonym jstring = "code_unit list"

definition slash :: code_unit where
  "slash = 0x2F"

definition asterisk :: code_unit where
  "asterisk = 0x2A"

text \<open>
  The character class \<open>\s\<close> of the language: the white space code points TAB, VT, FF,
  SP, NBSP, ZWNBSP and the space separators, together with the line terminators LF, CR,
  LS and PS.
\<close>

definition isSpace :: "code_unit \<Rightarrow> bool" where
  "isSpace c = (c \<in> set [0x09, 0x0A, 0x0B, 0x0C, 0x0D, 0x20, 0xA0, 0x1680,
                          0x2000, 0x2001, 0x2002, 0x2003, 0x2004, 0x2005, 0x2006,
                          0x2007, 0x2008, 0x2009, 0x200A,
                          0x2028, 0x2029, 0x202F, 0x205F, 0x3000, 0xFEFF])"

text \<open>\<open>s.slice(0, n)\<close> and \<open>s.slice(n)\<close> for an index \<open>n \<ge> 0\<close>: both clamp at the length.\<close>

definition slice_to :: "jstring \<Rightarrow> nat \<Rightarrow> jstring" where
  "slice_to s n = take n s"

definition slice_from :: "jstring \<Rightarrow> nat \<Rightarrow> jstring" where
  "slice_from s n = drop n s"

section \<open>The regular expressions of the source\<close>

text \<open>
  The three patterns of the source use single characters, the class \<open>\s\<close>, the greedy
  star on one of them, and the anchors \<open>^\<close> and \<open>$\<close> (no flags, so the anchors are the
  two ends of the input).  A pattern is the list of its pieces in order.
\<close>

datatype atom = Lit code_unit | WhiteSpace

datatype piece = One atom | Star atom | Bol | Eol

type_synonym regex = "piece list"

fun atom_matches :: "atom \<Rightarrow> code_unit \<Rightarrow> bool" where
  "atom_matches (Lit a) c = (c = a)"
| "atom_matches WhiteSpace c = isSpace c"

text \<open>
  The backtracking matcher of the language, at one starting index: \<open>matchHere r i s\<close>
  matches the pieces \<open>r\<close> against the rest \<open>s\<close> of the input, which begins at index \<open>i\<close>,
  and returns the number of code units consumed.  A star first tries one more
  repetition and falls back to none when what follows fails.
\<close>

fun matchHere :: "regex \<Rightarrow> nat \<Rightarrow> jstring \<Rightarrow> nat option" where
  "matchHere [] i s = Some 0"
| "matchHere (Bol # r) i s = (if i = 0 then matchHere r i s else None)"
| "matchHere (Eol # r) i s = (if s = [] then matchHere r i s else None)"
| "matchHere (One a # r) i [] = None"
| "matchHere (One a # r) i (c # cs) =
     (if atom_matches a c then map_option Suc (matchHere r (Suc i) cs) else None)"
| "matchHere (Star a # r) i [] = matchHere r i []"
| "matchHere (Star a # r) i (c # cs) =
     (if atom_matches a c
      then (case matchHere (Star a # r) (Suc i) cs of
              Some n \<Rightarrow> Some (Suc n)
            | None \<Rightarrow> matchHere r i (c # cs))
      else matchHere r i (c # cs))"

text \<open>The search for the leftmost starting index, from index \<open>i\<close> on.\<close>

fun search :: "regex \<Rightarrow> nat \<Rightarrow> jstring \<Rightarrow> jstring option" where
  "search r i [] = map_option (\<lambda>n. []) (matchHere r i [])"
| "search r i (c # cs) =
     (case matchHere r i (c # cs) of
        Some n \<Rightarrow> Some (take n (c # cs))
      | None \<Rightarrow> search r (Suc i) cs)"

text \<open>
  \<open>s.match(r)\<close> for a pattern without the global flag: \<open>null\<close> (here \<open>None\<close>) when the
  pattern matches nowhere, otherwise the match array, of which the source reads only
  element 0, the matched text.
\<close>

definition js_match :: "jstring \<Rightarrow> regex \<Rightarrow> jstring option" where
  "js_match s r = search r 0 s"

text \<open>\<open>/\/\**\s*$/\<close>\<close>

definition opener_re :: regex where
  "opener_re = [One (Lit slash), Star (Lit asterisk), Star WhiteSpace, Eol]"

text \<open>\<open>/^\s*\**\//\<close>\<close>

definition closer_re :: regex where
  "closer_re = [Bol, Star WhiteSpace, Star (Lit asterisk), One (Lit slash)]"

text \<open>\<open>/^\s*\/\*\*\s*$/\<close>\<close>

definition trigger_re :: regex where
  "trigger_re = [Bol, Star WhiteSpace, One (Lit slash), One (Lit asterisk),
                 One (Lit asterisk), Star WhiteSpace, Eol]"

section \<open>The shapes of the comment delimiters\<close>

text \<open>
  What the three patterns are meant to recognise, said without the matcher: an opener is
  a slash, then asterisks, then white space; a closer is white space, then asterisks,
  then a slash; the trigger text is white space, the opener \<open>/**\<close>, white space.
\<close>

definition spaces :: "jstring \<Rightarrow> bool" where
  "spaces w = list_all isSpace w"

definition stars :: "jstring \<Rightarrow> bool" where
  "stars w = list_all (\<lambda>c. c = asterisk) w"

definition is_opener :: "jstring \<Rightarrow> bool" where
  "is_opener w = (\<exists>a b. w = slash # a @ b \<and> stars a \<and> spaces b)"

definition is_closer :: "jstring \<Rightarrow> bool" where
  "is_closer w = (\<exists>a b. w = a @ b @ [slash] \<and> spaces a \<and> stars b)"

definition is_trigger :: "jstring \<Rightarrow> bool" where
  "is_trigger w = (\<exists>a b. w = a @ [slash, asterisk, asterisk] @ b \<and> spaces a \<and> spaces b)"

section \<open>Positions and ranges of the host editor\<close>

text \<open>
  Modelled from the spec: the spec treats the editor host (module \<open>vscode\<close>) as an
  external collaborator, and its classes are not among the repository's sources.  What
  the spec leaves open is taken from the host's documented behaviour: a position is a
  zero-based line and character, constructing one with a negative component raises,
  \<open>translate\<close> adds deltas (returning the receiver when both are zero), and a range
  orders its two ends.
\<close>

datatype error =
    IllegalArgument string
  | IllegalValue string
  | TypeError string

record position =
  line :: nat
  character :: nat

definition new_Position :: "int \<Rightarrow> int \<Rightarrow> error + position" where
  "new_Position l c =
     (if l < 0 then Inl (IllegalArgument ''line must be non-negative'')
      else if c < 0 then Inl (IllegalArgument ''character must be non-negative'')
      else Inr \<lparr>line = nat l, character = nat c\<rparr>)"

definition translate :: "position \<Rightarrow> int \<Rightarrow> int \<Rightarrow> error + position" where
  "translate p lineDelta characterDelta =
     (if lineDelta = 0 \<and> characterDelta = 0 then Inr p
      else new_Position (int (line p) + lineDelta) (int (character p) + characterDelta))"

definition isBefore :: "position \<Rightarrow> position \<Rightarrow> bool" where
  "isBefore p q = (line p < line q \<or> (line p = line q \<and> character p < character q))"

definition isBeforeOrEqual :: "position \<Rightarrow> position \<Rightarrow> bool" where
  "isBeforeOrEqual p q = (line p < line q \<or> (line p = line q \<and> character p \<le> character q))"

record range =
  rstart :: position
  rend :: position

definition new_Range :: "position \<Rightarrow> position \<Rightarrow> range" where
  "new_Range a b =
     (if isBefore a b then \<lparr>rstart = a, rend = b\<rparr> else \<lparr>rstart = b, rend = a\<rparr>)"

text \<open>\<open>range.contains(position)\<close> of the host: both ends are inclusive.\<close>

definition contains :: "range \<Rightarrow> position \<Rightarrow> bool" where
  "contains r p = (isBeforeOrEqual (rstart r) p \<and> isBeforeOrEqual p (rend r))"

text \<open>
  A document is the list of its lines (each without its line break); \<open>lineAt\<close> raises
  for a line number that is not in the document.
\<close>

record textDocument =
  lines :: "jstring list"

definition lineAt :: "textDocument \<Rightarrow> nat \<Rightarrow> error + jstring" where
  "lineAt document n =
     (if n < length (lines document) then Inr (lines document ! n)
      else Inl (IllegalValue ''Illegal value for `line`''))"

section \<open>The completion item\<close>

datatype completionItemKind = Snippet

record command =
  title :: string
  command :: string

record completionItem =
  label :: string
  kind :: completionItemKind
  insertText :: string
  sortText :: string
  itemRange :: range
  command :: command

text \<open>
  \<open>GenerateJsdocCompletionItem.retrieveRange\<close>.  The two \<open>translate\<close> calls can raise in
  the host, so the result is a sum.
\<close>

definition retrieveRange :: "jstring \<Rightarrow> position \<Rightarrow> error + range" where
  "retrieveRange ln pos =
     (let prefix = js_match (slice_to ln (character pos)) opener_re;
          suffix = js_match (slice_from ln (character pos)) closer_re
      in case translate pos 0 (case prefix of Some m \<Rightarrow> - int (length m) | None \<Rightarrow> 0) of
           Inl e \<Rightarrow> Inl e
         | Inr start \<Rightarrow>
             (case translate pos 0 (case suffix of Some m \<Rightarrow> int (length m) | None \<Rightarrow> 0) of
                Inl e \<Rightarrow> Inl e
              | Inr fin \<Rightarrow> Inr (new_Range start fin)))"

text \<open>The constructor of \<open>GenerateJsdocCompletionItem\<close>.\<close>

definition new_GenerateJsdocCompletionItem :: "jstring \<Rightarrow> position \<Rightarrow> error + completionItem" where
  "new_GenerateJsdocCompletionItem ln pos =
     (case retrieveRange ln pos of
        Inl e \<Rightarrow> Inl e
      | Inr r \<Rightarrow>
          Inr \<lparr>label = ''/** Autogenerated JSDoc */'',
               kind = Snippet,
               insertText = [],
               sortText = [CHR 0x00],
               itemRange = r,
               command = \<lparr>title = ''Generate JSDoc'',
                          command = ''jsdoc-generator.generateJsdoc''\<rparr>\<rparr>)"

text \<open>
  \<open>provideCompletionItems\<close> of the registered provider.  The third parameter is the
  cancellation token, which the body never reads; \<open>None\<close> is the \<open>null\<close> of the source.
\<close>

definition provideCompletionItems ::
    "textDocument \<Rightarrow> position \<Rightarrow> 'token \<Rightarrow> error + completionItem list option" where
  "provideCompletionItems document pos token =
     (case lineAt document (line pos) of
        Inl e \<Rightarrow> Inl e
      | Inr ln \<Rightarrow>
          (let prefix = slice_to ln (character pos)
           in if js_match prefix trigger_re \<noteq> None
              then (case new_GenerateJsdocCompletionItem ln pos of
                      Inl e \<Rightarrow> Inl e
                    | Inr item \<Rightarrow> Inr (Some [item]))
              else Inr None))"

text \<open>
  The text that \<open>retrieveRange\<close> measures on each side of the cursor: element 0 of the
  match, or the empty text when the pattern does not match.
\<close>

definition opener_before :: "jstring \<Rightarrow> position \<Rightarrow> jstring" where
  "opener_before ln pos =
     (case js_match (slice_to ln (character pos)) opener_re of Some m \<Rightarrow> m | None \<Rightarrow> [])"

definition closer_after :: "jstring \<Rightarrow> position \<Rightarrow> jstring" where
  "closer_after ln pos =
     (case js_match (slice_from ln (character pos)) closer_re of Some m \<Rightarrow> m | None \<Rightarrow> [])"

section \<open>The module state and the commands\<close>

text \<open>
  Modelled from the spec: the class \<open>JsdocGenerator\<close> (module \<open>./JsdocGenerator\<close>) is not
  among the sources at hand; the spec calls it the lazily-instantiated synthesizer.  An
  instance is identified by the number of instances constructed before it, and what
  the commands do with it and with the host window is recorded as a list of events,
  in order: a construction, a call of one of the two generation entry points with the
  editor passed, a message shown to the user.
\<close>

datatype generator = JsdocGenerator nat

record textEditor =
  document :: textDocument

datatype event =
    New_JsdocGenerator generator
  | Call_generateJsdoc generator textEditor
  | Call_generateJsdocFile generator textEditor
  | ShowErrorMessage string
  | ShowWarningMessage string

fun is_construction :: "event \<Rightarrow> bool" where
  "is_construction (New_JsdocGenerator g) = True"
| "is_construction e = False"

fun is_generation :: "event \<Rightarrow> bool" where
  "is_generation (Call_generateJsdoc g ed) = True"
| "is_generation (Call_generateJsdocFile g ed) = True"
| "is_generation e = False"

text \<open>
  The state the commands work on: the module variable \<open>jsdocGenerator\<close> (\<open>None\<close> while
  it is undefined), the host's \<open>vscode.window.activeTextEditor\<close> (\<open>None\<close> when no editor
  is active), and the events so far.
\<close>

record extension_state =
  jsdocGenerator :: "generator option"
  activeTextEditor :: "textEditor option"
  events :: "event list"

definition lazyInstantiateJsdocGenerator :: "extension_state \<Rightarrow> extension_state" where
  "lazyInstantiateJsdocGenerator s =
     (if jsdocGenerator s = None
      then (let g = JsdocGenerator (length (filter is_construction (events s)))
            in s\<lparr>jsdocGenerator := Some g, events := events s @ [New_JsdocGenerator g]\<rparr>)
      else s)"

text \<open>
  The three command handlers registered by \<open>activate\<close>.  Calling a method of an
  undefined \<open>jsdocGenerator\<close> would raise a \<open>TypeError\<close>.
\<close>

definition generateJsdoc :: "extension_state \<Rightarrow> error + extension_state" where
  "generateJsdoc s0 =
     (let s = lazyInstantiateJsdocGenerator s0
      in case activeTextEditor s of
           Some ed \<Rightarrow>
             (case jsdocGenerator s of
                None \<Rightarrow> Inl (TypeError ''jsdocGenerator is undefined'')
              | Some g \<Rightarrow> Inr (s\<lparr>events := events s @ [Call_generateJsdoc g ed]\<rparr>))
         | None \<Rightarrow>
             Inr (s\<lparr>events := events s @
                    [ShowErrorMessage ''Unable to generate JSDoc: no editor has been selected.'']\<rparr>))"

definition generateJsdocFile :: "extension_state \<Rightarrow> error + extension_state" where
  "generateJsdocFile s0 =
     (let s = lazyInstantiateJsdocGenerator s0
      in case activeTextEditor s of
           Some ed \<Rightarrow>
             (case jsdocGenerator s of
                None \<Rightarrow> Inl (TypeError ''jsdocGenerator is undefined'')
              | Some g \<Rightarrow> Inr (s\<lparr>events := events s @ [Call_generateJsdocFile g ed]\<rparr>))
         | None \<Rightarrow>
             Inr (s\<lparr>events := events s @
                    [ShowErrorMessage ''Unable to generate JSDoc: no editor has been selected.'']\<rparr>))"

definition generateJsdocFiles :: "extension_state \<Rightarrow> error + extension_state" where
  "generateJsdocFiles s0 =
     (let s = lazyInstantiateJsdocGenerator s0
      in Inr (s\<lparr>events := events s @
                 [ShowWarningMessage ''This function is not available yet.'']\<rparr>))"

text \<open>
  What can happen after activation, one step at a time: the user runs one of the three
  commands, or the host changes the active editor.  A run stops at the first error.
\<close>

datatype step =
    Run_generateJsdoc
  | Run_generateJsdocFile
  | Run_generateJsdocFiles
  | Host_sets_editor "textEditor option"

fun do_step :: "step \<Rightarrow> extension_state \<Rightarrow> error + extension_state" where
  "do_step Run_generateJsdoc s = generateJsdoc s"
| "do_step Run_generateJsdocFile s = generateJsdocFile s"
| "do_step Run_generateJsdocFiles s = generateJsdocFiles s"
| "do_step (Host_sets_editor ed) s = Inr (s\<lparr>activeTextEditor := ed\<rparr>)"

fun run :: "step list \<Rightarrow> extension_state \<Rightarrow> error + extension_state" where
  "run [] s = Inr s"
| "run (x # xs) s = (case do_step x s of Inl e \<Rightarrow> Inl e | Inr s' \<Rightarrow> run xs s')"

text \<open>The state when the module has been loaded: the variable is declared, not assigned.\<close>

definition initial_state :: "textEditor option \<Rightarrow> extension_state" where
  "initial_state ed = \<lparr>jsdocGenerator = None, activeTextEditor = ed, events = []\<rparr>"

text \<open>
  The number of generator instances constructed so far, and the invariant that links it
  to the module variable: none while the variable is undefined, one afterwards.
\<close>

definition constructions :: "extension_state \<Rightarrow> nat" where
  "constructions s = length (filter is_construction (events s))"

definition consistent :: "extension_state \<Rightarrow> bool" where
  "consistent s = (constructions s = (if jsdocGenerator s = None then 0 else 1))"

section \<open>Configuration\<close>

type_synonym 'v workspaceConfiguration = "string \<rightharpoonup> 'v"

text \<open>
  Modelled from the spec: the host configuration store is not among the sources; the
  spec describes it as a flat key-value configuration under dotted names, read with a
  default supplied by the caller.  \<open>config_get\<close> is the host's
  \<open>WorkspaceConfiguration.get(section, defaultValue)\<close>: the stored value, or the default
  when there is none.
\<close>

definition config_get :: "'v workspaceConfiguration \<Rightarrow> string \<Rightarrow> 'v \<Rightarrow> 'v" where
  "config_get configuration section defaultValue =
     (case configuration section of None \<Rightarrow> defaultValue | Some v \<Rightarrow> v)"

text \<open>
  \<open>getConfig\<close>; its first argument stands for the value of
  \<open>vscode.workspace.getConfiguration()\<close> at the time of the call.
\<close>

definition getConfig :: "'v workspaceConfiguration \<Rightarrow> string \<Rightarrow> 'v \<Rightarrow> 'v" where
  "getConfig configuration configurationName defaultValue =
     config_get configuration configurationName defaultValue"

section \<open>What the matcher computes on the three patterns\<close>

lemma not_isSpace_slash: "\<not> isSpace slash"
  by (simp add: isSpace_def slash_def)

lemma not_isSpace_asterisk: "\<not> isSpace asterisk"
  by (simp add: isSpace_def asterisk_def)

lemma slash_neq_asterisk: "slash \<noteq> asterisk"
  by (simp add: slash_def asterisk_def)

lemma matchHere_Star_skip:
  assumes stuck: "\<And>j c cs. atom_matches a c \<Longrightarrow> matchHere r j (c # cs) = None"
  shows "matchHere (Star a # r) i s =
           map_option (\<lambda>n. length (takeWhile (atom_matches a) s) + n)
             (matchHere r (i + length (takeWhile (atom_matches a) s))
                (dropWhile (atom_matches a) s))"
proof (induction s arbitrary: i)
  case Nil
  show ?case by (simp add: option.map_ident)
next
  case (Cons c cs)
  show ?case
  proof (cases "atom_matches a c")
    case True
    show ?thesis
    proof (cases "matchHere (Star a # r) (Suc i) cs")
      case None
      with True Cons [of "Suc i"] stuck [OF True, of i cs] show ?thesis by simp
    next
      case (Some n)
      with True Cons [of "Suc i"] show ?thesis by (auto split: option.splits)
    qed
  next
    case False
    then show ?thesis by (simp add: option.map_ident)
  qed
qed

lemma atom_matches_WhiteSpace: "atom_matches WhiteSpace = isSpace"
  by (rule ext) simp

lemma atom_matches_Lit: "atom_matches (Lit a) = (\<lambda>c. c = a)"
  by (rule ext) simp

lemma matchHere_spaces_Eol:
  "matchHere [Star WhiteSpace, Eol] i s = (if spaces s then Some (length s) else None)"
proof -
  show ?thesis
    by (subst matchHere_Star_skip)
      (auto simp: atom_matches_WhiteSpace spaces_def list_all_iff
         takeWhile_eq_all_conv [THEN iffD2])
qed

lemma spaces_dropWhile: "spaces s \<Longrightarrow> spaces (dropWhile P s)"
  unfolding spaces_def list_all_iff using set_dropWhileD by fastforce

lemma matchHere_stars_spaces_Eol:
  "matchHere [Star (Lit asterisk), Star WhiteSpace, Eol] i s =
     (if spaces (dropWhile (\<lambda>c. c = asterisk) s) then Some (length s) else None)"
proof -
  have len: "length (takeWhile (\<lambda>c. c = asterisk) s) + length (dropWhile (\<lambda>c. c = asterisk) s)
      = length s"
    by (metis length_append takeWhile_dropWhile_id)
  show ?thesis
    by (subst matchHere_Star_skip)
      (simp_all add: atom_matches_Lit matchHere_spaces_Eol len not_isSpace_asterisk)
qed

lemma matchHere_opener:
  "matchHere opener_re i s =
     (case s of [] \<Rightarrow> None
      | c # cs \<Rightarrow> if c = slash \<and> spaces (dropWhile (\<lambda>c. c = asterisk) cs)
                  then Some (length s) else None)"
  by (cases s) (simp_all add: opener_re_def matchHere_stars_spaces_Eol)

lemma is_opener_iff:
  "is_opener w = (\<exists>cs. w = slash # cs \<and> spaces (dropWhile (\<lambda>c. c = asterisk) cs))"
proof
  assume "is_opener w"
  then obtain a b where w: "w = slash # a @ b" and a: "stars a" and b: "spaces b"
    by (auto simp: is_opener_def)
  from a have "dropWhile (\<lambda>c. c = asterisk) (a @ b) = dropWhile (\<lambda>c. c = asterisk) b"
    by (simp add: stars_def list_all_iff)
  with b w show "\<exists>cs. w = slash # cs \<and> spaces (dropWhile (\<lambda>c. c = asterisk) cs)"
    by (simp add: spaces_dropWhile)
next
  assume "\<exists>cs. w = slash # cs \<and> spaces (dropWhile (\<lambda>c. c = asterisk) cs)"
  then obtain cs where w: "w = slash # cs" and sp: "spaces (dropWhile (\<lambda>c. c = asterisk) cs)"
    by blast
  have "stars (takeWhile (\<lambda>c. c = asterisk) cs)"
    unfolding stars_def list_all_iff using set_takeWhileD by fastforce
  moreover have "w = slash # takeWhile (\<lambda>c. c = asterisk) cs @ dropWhile (\<lambda>c. c = asterisk) cs"
    using w by simp
  ultimately show "is_opener w"
    unfolding is_opener_def using sp by blast
qed

lemma matchHere_opener_Some:
  "matchHere opener_re i s = Some n \<longleftrightarrow> is_opener s \<and> n = length s"
  by (cases s) (auto simp: matchHere_opener is_opener_iff)

lemma matchHere_opener_None:
  "matchHere opener_re i s = None \<longleftrightarrow> \<not> is_opener s"
  by (cases s) (auto simp: matchHere_opener is_opener_iff)

lemma search_opener_Some:
  "search opener_re i s = Some m \<Longrightarrow> suffix m s \<and> is_opener m"
proof (induction s arbitrary: i)
  case Nil
  then show ?case by (simp add: matchHere_opener)
next
  case (Cons c cs)
  show ?case
  proof (cases "matchHere opener_re i (c # cs)")
    case None
    with Cons.prems have "search opener_re (Suc i) cs = Some m" by simp
    from Cons.IH [OF this] show ?thesis by (simp add: suffix_Cons)
  next
    case (Some n)
    then have "is_opener (c # cs)" and "n = length (c # cs)"
      by (simp_all add: matchHere_opener_Some)
    with Some Cons.prems show ?thesis by simp
  qed
qed

lemma search_opener_None:
  "search opener_re i s = None \<Longrightarrow> suffix w s \<Longrightarrow> \<not> is_opener w"
proof (induction s arbitrary: i)
  case Nil
  then show ?case by (simp add: is_opener_def)
next
  case (Cons c cs)
  from Cons.prems(1) have here: "matchHere opener_re i (c # cs) = None"
    and rest: "search opener_re (Suc i) cs = None"
    by (simp_all split: option.splits)
  from Cons.prems(2) have "w = c # cs \<or> suffix w cs" by (simp add: suffix_Cons)
  then show ?case
  proof
    assume "w = c # cs"
    with here show ?thesis by (simp add: matchHere_opener_None)
  next
    assume "suffix w cs"
    with Cons.IH [OF rest] show ?thesis by simp
  qed
qed

lemma is_opener_no_slash: "is_opener w \<Longrightarrow> slash \<notin> set (tl w)"
  using slash_neq_asterisk not_isSpace_slash
  by (auto simp: is_opener_def stars_def spaces_def list_all_iff)

lemma opener_suffix_unique:
  assumes v: "is_opener v" and w: "is_opener w" and sv: "suffix v s" and sw: "suffix w s"
  shows "v = w"
proof -
  have step: "x = y" if x: "is_opener x" and y: "is_opener y" and xy: "suffix x y" for x y
  proof -
    from xy obtain z where z: "y = z @ x" by (auto simp: suffix_def)
    from x obtain x' where x': "x = slash # x'" by (auto simp: is_opener_def)
    show ?thesis
    proof (cases z)
      case Nil
      with z show ?thesis by simp
    next
      case (Cons c cs)
      with z x' have "slash \<in> set (tl y)" by simp
      with is_opener_no_slash [OF y] show ?thesis by simp
    qed
  qed
  from sv sw have "suffix v w \<or> suffix w v" by (rule suffix_same_cases)
  with step [OF v w] step [OF w v] show ?thesis by auto
qed

lemma isSpace_neq: "isSpace c \<Longrightarrow> c \<noteq> slash \<and> c \<noteq> asterisk"
  using not_isSpace_slash not_isSpace_asterisk by auto

lemma matchHere_Star_WhiteSpace:
  assumes "\<forall>j c cs. isSpace c \<longrightarrow> matchHere r j (c # cs) = None"
  shows "matchHere (Star WhiteSpace # r) i s =
           map_option (\<lambda>n. length (takeWhile isSpace s) + n)
             (matchHere r (i + length (takeWhile isSpace s)) (dropWhile isSpace s))"
  using matchHere_Star_skip [of WhiteSpace r i s] assms
  by (simp add: atom_matches_WhiteSpace)

lemma matchHere_Star_asterisk:
  assumes "\<forall>j cs. matchHere r j (asterisk # cs) = None"
  shows "matchHere (Star (Lit asterisk) # r) i s =
           map_option (\<lambda>n. length (takeWhile (\<lambda>c. c = asterisk) s) + n)
             (matchHere r (i + length (takeWhile (\<lambda>c. c = asterisk) s))
                (dropWhile (\<lambda>c. c = asterisk) s))"
  using matchHere_Star_skip [of "Lit asterisk" r i s] assms
  by (simp add: atom_matches_Lit)

lemma matchHere_slash:
  "matchHere [One (Lit slash)] i s =
     (case s of [] \<Rightarrow> None | c # cs \<Rightarrow> if c = slash then Some 1 else None)"
  by (cases s) simp_all

lemma matchHere_stars_slash:
  "matchHere [Star (Lit asterisk), One (Lit slash)] i s =
     (case dropWhile (\<lambda>c. c = asterisk) s of
        [] \<Rightarrow> None
      | c # cs \<Rightarrow> if c = slash then Some (Suc (length (takeWhile (\<lambda>c. c = asterisk) s)))
                  else None)"
proof -
  have stuck: "\<forall>j cs. matchHere [One (Lit slash)] j (asterisk # cs) = None"
    using slash_neq_asterisk by simp
  show ?thesis
    unfolding matchHere_Star_asterisk [OF stuck]
    by (cases "dropWhile (\<lambda>c. c = asterisk) s")
      (simp_all add: matchHere_slash del: dropWhile_eq_Nil_conv)
qed

lemma matchHere_closer_body:
  "matchHere [Star WhiteSpace, Star (Lit asterisk), One (Lit slash)] i s =
     (case dropWhile (\<lambda>c. c = asterisk) (dropWhile isSpace s) of
        [] \<Rightarrow> None
      | c # cs \<Rightarrow>
          if c = slash
          then Some (Suc (length (takeWhile isSpace s) +
                 length (takeWhile (\<lambda>c. c = asterisk) (dropWhile isSpace s))))
          else None)"
proof -
  have stuck: "\<forall>j c cs. isSpace c \<longrightarrow>
      matchHere [Star (Lit asterisk), One (Lit slash)] j (c # cs) = None"
    by (auto simp: matchHere_stars_slash dest: isSpace_neq)
  show ?thesis
    unfolding matchHere_Star_WhiteSpace [OF stuck]
    by (cases "dropWhile (\<lambda>c. c = asterisk) (dropWhile isSpace s)")
      (simp_all add: matchHere_stars_slash del: dropWhile_eq_Nil_conv)
qed

lemma matchHere_closer_Some:
  assumes "matchHere [Star WhiteSpace, Star (Lit asterisk), One (Lit slash)] i s = Some n"
  shows "n \<le> length s \<and> is_closer (take n s)"
proof -
  let ?a = "takeWhile isSpace s" and ?s1 = "dropWhile isSpace s"
  let ?b = "takeWhile (\<lambda>c. c = asterisk) ?s1" and ?s2 = "dropWhile (\<lambda>c. c = asterisk) ?s1"
  from assms obtain rest where s2: "?s2 = slash # rest" and n: "n = Suc (length ?a + length ?b)"
    by (auto simp: matchHere_closer_body split: list.splits if_splits)
  have "s = ?a @ ?s1" by simp
  also have "?s1 = ?b @ ?s2" by simp
  finally have s: "s = ?a @ ?b @ slash # rest" using s2 by simp
  have a: "spaces ?a"
    unfolding spaces_def list_all_iff using set_takeWhileD by fastforce
  have b: "stars ?b"
    unfolding stars_def list_all_iff using set_takeWhileD by fastforce
  have "take n s = take n (?a @ ?b @ slash # rest)" using s by simp
  also have "\<dots> = ?a @ ?b @ [slash]" using n by simp
  finally have "take n s = ?a @ ?b @ [slash]" .
  with a b have "is_closer (take n s)" unfolding is_closer_def by blast
  moreover have "n \<le> length s" by (subst s) (simp add: n)
  ultimately show ?thesis by simp
qed

lemma matchHere_closer_prefix:
  assumes w: "is_closer w"
  shows "matchHere [Star WhiteSpace, Star (Lit asterisk), One (Lit slash)] i (w @ rest)
           = Some (length w)"
proof -
  from w obtain a b where w': "w = a @ b @ [slash]" and a: "spaces a" and b: "stars b"
    by (auto simp: is_closer_def)
  have nsp: "\<not> isSpace (hd (b @ slash # rest))"
    using b by (cases b) (auto simp: stars_def not_isSpace_slash not_isSpace_asterisk)
  have d1: "dropWhile isSpace (w @ rest) = b @ slash # rest"
    using a nsp by (cases b) (simp_all add: w' spaces_def list_all_iff)
  have t1: "takeWhile isSpace (w @ rest) = a"
    using a nsp by (cases b) (simp_all add: w' spaces_def list_all_iff)
  have d2: "dropWhile (\<lambda>c. c = asterisk) (b @ slash # rest) = slash # rest"
    using b by (simp add: stars_def list_all_iff slash_neq_asterisk)
  have t2: "takeWhile (\<lambda>c. c = asterisk) (b @ slash # rest) = b"
    using b by (simp add: stars_def list_all_iff slash_neq_asterisk)
  show ?thesis
    by (simp add: matchHere_closer_body d1 t1 d2 t2) (simp add: w')
qed

lemma matchHere_closer_None:
  assumes "matchHere [Star WhiteSpace, Star (Lit asterisk), One (Lit slash)] i s = None"
    and "prefix w s"
  shows "\<not> is_closer w"
proof
  assume "is_closer w"
  moreover from assms(2) obtain rest where "s = w @ rest" by (auto simp: prefix_def)
  ultimately show False using assms(1) matchHere_closer_prefix by simp
qed

lemma closer_prefix_unique:
  assumes "is_closer v" and "is_closer w" and "prefix v s" and "prefix w s"
  shows "v = w"
proof -
  from assms(3) obtain r1 where r1: "s = v @ r1" by (auto simp: prefix_def)
  from assms(4) obtain r2 where r2: "s = w @ r2" by (auto simp: prefix_def)
  have "matchHere [Star WhiteSpace, Star (Lit asterisk), One (Lit slash)] 0 s = Some (length v)"
    unfolding r1 by (rule matchHere_closer_prefix [OF assms(1)])
  moreover
  have "matchHere [Star WhiteSpace, Star (Lit asterisk), One (Lit slash)] 0 s = Some (length w)"
    unfolding r2 by (rule matchHere_closer_prefix [OF assms(2)])
  ultimately have len: "length v = length w" by simp
  have "v = take (length v) s" by (simp add: r1)
  also have "\<dots> = w" by (simp add: len r2)
  finally show ?thesis .
qed

lemma search_Bol_later: "0 < i \<Longrightarrow> search (Bol # r) i s = None"
  by (induction s arbitrary: i) simp_all

lemma search_Bol: "search (Bol # r) 0 s = map_option (\<lambda>n. take n s) (matchHere r 0 s)"
  by (cases s) (simp_all add: search_Bol_later split: option.splits)

lemma js_match_closer:
  "js_match s closer_re =
     map_option (\<lambda>n. take n s)
       (matchHere [Star WhiteSpace, Star (Lit asterisk), One (Lit slash)] 0 s)"
  by (simp add: js_match_def closer_re_def search_Bol)

lemma js_match_closer_Some:
  "js_match s closer_re = Some m \<Longrightarrow> prefix m s \<and> is_closer m"
  by (auto simp: js_match_closer take_is_prefix dest: matchHere_closer_Some)

lemma js_match_closer_None:
  "js_match s closer_re = None \<Longrightarrow> prefix w s \<Longrightarrow> \<not> is_closer w"
  by (auto simp: js_match_closer dest: matchHere_closer_None)

lemma js_match_opener_Some:
  "js_match s opener_re = Some m \<Longrightarrow> suffix m s \<and> is_opener m"
  unfolding js_match_def by (rule search_opener_Some)

lemma js_match_opener_None:
  "js_match s opener_re = None \<Longrightarrow> suffix w s \<Longrightarrow> \<not> is_opener w"
  unfolding js_match_def by (rule search_opener_None)

lemma matchHere_trigger_body:
  "matchHere [One (Lit slash), One (Lit asterisk), One (Lit asterisk), Star WhiteSpace, Eol] i s
     = (case s of
          c1 # c2 # c3 # rest \<Rightarrow>
            if c1 = slash \<and> c2 = asterisk \<and> c3 = asterisk \<and> spaces rest
            then Some (length s) else None
        | _ \<Rightarrow> None)"
  by (auto simp: matchHere_spaces_Eol split: list.splits)

lemma js_match_trigger:
  "js_match s trigger_re \<noteq> None \<longleftrightarrow> is_trigger s"
proof -
  let ?a = "takeWhile isSpace s" and ?d = "dropWhile isSpace s"
  have stuck: "\<forall>j c cs. isSpace c \<longrightarrow>
      matchHere [One (Lit slash), One (Lit asterisk), One (Lit asterisk), Star WhiteSpace, Eol]
        j (c # cs) = None"
    by (auto dest: isSpace_neq)
  have m: "js_match s trigger_re \<noteq> None \<longleftrightarrow>
      (\<exists>rest. ?d = slash # asterisk # asterisk # rest \<and> spaces rest)"
    unfolding js_match_def trigger_re_def search_Bol matchHere_Star_WhiteSpace [OF stuck]
    by (auto simp add: matchHere_trigger_body simp del: dropWhile_eq_Nil_conv
        split: list.splits)
  show ?thesis
  proof
    assume "js_match s trigger_re \<noteq> None"
    with m obtain rest where d: "?d = slash # asterisk # asterisk # rest" and r: "spaces rest"
      by blast
    have "s = ?a @ ?d" by simp
    with d have "s = ?a @ [slash, asterisk, asterisk] @ rest" by simp
    moreover have "spaces ?a"
      unfolding spaces_def list_all_iff using set_takeWhileD by fastforce
    ultimately show "is_trigger s" unfolding is_trigger_def using r by blast
  next
    assume "is_trigger s"
    then obtain a b where s: "s = a @ [slash, asterisk, asterisk] @ b"
      and a: "spaces a" and b: "spaces b"
      by (auto simp: is_trigger_def)
    from a have "?d = slash # asterisk # asterisk # b"
      by (simp add: s spaces_def list_all_iff not_isSpace_slash)
    with b m show "js_match s trigger_re \<noteq> None" by simp
  qed
qed

section \<open>Positions, ranges and the range of the completion item\<close>

lemma translate_back:
  "n \<le> character pos \<Longrightarrow> translate pos 0 (- int n) = Inr (pos\<lparr>character := character pos - n\<rparr>)"
  by (cases "n = 0") (auto simp: translate_def new_Position_def)

lemma translate_forward:
  "translate pos 0 (int n) = Inr (pos\<lparr>character := character pos + n\<rparr>)"
  by (cases "n = 0") (auto simp: translate_def new_Position_def nat_add_distrib)

lemma new_Range_ordered:
  "line a = line b \<Longrightarrow> character a \<le> character b \<Longrightarrow>
   new_Range a b = \<lparr>rstart = a, rend = b\<rparr>"
  by (cases a, cases b) (auto simp: new_Range_def isBefore_def)

lemma opener_before_suffix: "suffix (opener_before ln pos) (take (character pos) ln)"
  by (auto simp: opener_before_def slice_to_def split: option.splits
      dest: js_match_opener_Some)

lemma opener_before_length: "length (opener_before ln pos) \<le> character pos"
proof -
  have "length (opener_before ln pos) \<le> length (take (character pos) ln)"
    by (rule suffix_length_le) (rule opener_before_suffix)
  then show ?thesis by simp
qed

lemma closer_after_prefix: "prefix (closer_after ln pos) (drop (character pos) ln)"
  by (auto simp: closer_after_def slice_from_def split: option.splits
      dest: js_match_closer_Some)

lemma retrieveRange_eq:
  "retrieveRange ln pos =
     Inr \<lparr>rstart = pos\<lparr>character := character pos - length (opener_before ln pos)\<rparr>,
          rend = pos\<lparr>character := character pos + length (closer_after ln pos)\<rparr>\<rparr>"
proof -
  let ?p = "opener_before ln pos" and ?q = "closer_after ln pos"
  have p: "(case js_match (slice_to ln (character pos)) opener_re of
              Some m \<Rightarrow> - int (length m) | None \<Rightarrow> 0) = - int (length ?p)"
    by (simp add: opener_before_def split: option.splits)
  have q: "(case js_match (slice_from ln (character pos)) closer_re of
              Some m \<Rightarrow> int (length m) | None \<Rightarrow> 0) = int (length ?q)"
    by (simp add: closer_after_def split: option.splits)
  show ?thesis
    unfolding retrieveRange_def Let_def p q
    by (simp add: translate_back [OF opener_before_length] translate_forward new_Range_ordered)
qed

lemma opener_before_cases:
  "if \<exists>w. suffix w (take (character pos) ln) \<and> is_opener w
   then is_opener (opener_before ln pos) else opener_before ln pos = []"
proof (cases "js_match (slice_to ln (character pos)) opener_re")
  case None
  then show ?thesis
    by (auto simp: opener_before_def slice_to_def dest: js_match_opener_None)
next
  case (Some m)
  then show ?thesis
    by (auto simp: opener_before_def slice_to_def dest: js_match_opener_Some)
qed

lemma closer_after_cases:
  "if \<exists>w. prefix w (drop (character pos) ln) \<and> is_closer w
   then is_closer (closer_after ln pos) else closer_after ln pos = []"
proof (cases "js_match (slice_from ln (character pos)) closer_re")
  case None
  then show ?thesis
    by (auto simp: closer_after_def slice_from_def dest: js_match_closer_None)
next
  case (Some m)
  then show ?thesis
    by (auto simp: closer_after_def slice_from_def dest: js_match_closer_Some)
qed

lemma opener_before_unique:
  assumes "suffix w (take (character pos) ln)" and "is_opener w"
  shows "opener_before ln pos = w"
proof -
  from assms opener_before_cases [of pos ln] have "is_opener (opener_before ln pos)"
    by (auto split: if_splits)
  from this assms(2) opener_before_suffix assms(1) show ?thesis
    by (rule opener_suffix_unique)
qed

lemma closer_after_unique:
  assumes "prefix w (drop (character pos) ln)" and "is_closer w"
  shows "closer_after ln pos = w"
proof -
  from assms closer_after_cases [of pos ln] have "is_closer (closer_after ln pos)"
    by (auto split: if_splits)
  from this assms(2) closer_after_prefix assms(1) show ?thesis
    by (rule closer_prefix_unique)
qed

lemma retrieveRange_scenario:
  assumes a: "spaces a" and b: "spaces b"
    and ln: "ln = pre @ [slash, asterisk, asterisk] @ a @ b @ [asterisk, slash] @ post"
    and pos: "character pos = length pre + 3 + length a"
  shows "retrieveRange ln pos =
           Inr \<lparr>rstart = pos\<lparr>character := length pre\<rparr>,
                rend = pos\<lparr>character := length pre + 3 + length a + length b + 2\<rparr>\<rparr>"
proof -
  have split: "ln = (pre @ [slash, asterisk, asterisk] @ a) @ (b @ [asterisk, slash] @ post)"
    by (simp add: ln)
  have at: "character pos = length (pre @ [slash, asterisk, asterisk] @ a)"
    by (simp add: pos)
  have tk: "take (character pos) ln = pre @ [slash, asterisk, asterisk] @ a"
    unfolding split at by (rule append_eq_conv_conj [THEN iffD1, THEN conjunct1, symmetric]) simp
  have dr: "drop (character pos) ln = b @ [asterisk, slash] @ post"
    unfolding split at by (rule append_eq_conv_conj [THEN iffD1, THEN conjunct2, symmetric]) simp
  have "stars [asterisk, asterisk]" by (simp add: stars_def)
  with a have "is_opener (slash # [asterisk, asterisk] @ a)"
    unfolding is_opener_def by blast
  then have op: "is_opener ([slash, asterisk, asterisk] @ a)" by simp
  have "suffix ([slash, asterisk, asterisk] @ a) (take (character pos) ln)"
    unfolding tk by (rule suffixI) simp
  from opener_before_unique [OF this op]
  have p: "opener_before ln pos = [slash, asterisk, asterisk] @ a" .
  have "stars [asterisk]" by (simp add: stars_def)
  with b have cl: "is_closer (b @ [asterisk] @ [slash])"
    unfolding is_closer_def by blast
  have "prefix (b @ [asterisk] @ [slash]) (drop (character pos) ln)"
    unfolding dr by (rule prefixI) simp
  from closer_after_unique [OF this cl]
  have q: "closer_after ln pos = b @ [asterisk] @ [slash]" .
  show ?thesis
    unfolding retrieveRange_eq p q by (simp add: pos)
qed

section \<open>The lazily created generator and the commands\<close>

lemma lazyInstantiate_defined:
  "\<exists>g. jsdocGenerator (lazyInstantiateJsdocGenerator s) = Some g"
  by (cases "jsdocGenerator s") (auto simp: lazyInstantiateJsdocGenerator_def Let_def)

lemma lazyInstantiate_fixed:
  "jsdocGenerator s \<noteq> None \<Longrightarrow> lazyInstantiateJsdocGenerator s = s"
  by (auto simp: lazyInstantiateJsdocGenerator_def)

lemma lazyInstantiate_twice:
  "lazyInstantiateJsdocGenerator (lazyInstantiateJsdocGenerator s) = lazyInstantiateJsdocGenerator s"
  using lazyInstantiate_defined [of s] by (auto intro: lazyInstantiate_fixed)

lemma lazyInstantiate_editor:
  "activeTextEditor (lazyInstantiateJsdocGenerator s) = activeTextEditor s"
  by (simp add: lazyInstantiateJsdocGenerator_def Let_def)

lemma lazyInstantiate_events:
  "events (lazyInstantiateJsdocGenerator s) =
     events s @ (if jsdocGenerator s = None
                 then [New_JsdocGenerator (JsdocGenerator (length (filter is_construction (events s))))]
                 else [])"
  by (simp add: lazyInstantiateJsdocGenerator_def Let_def)

lemma lazyInstantiate_iterate:
  "(lazyInstantiateJsdocGenerator ^^ Suc n) s = lazyInstantiateJsdocGenerator s"
  by (induction n) (simp_all add: lazyInstantiate_twice)

lemma consistent_lazy: "consistent s \<Longrightarrow> consistent (lazyInstantiateJsdocGenerator s)"
  by (auto simp: consistent_def constructions_def lazyInstantiateJsdocGenerator_def Let_def)

lemma generateJsdoc_Inr:
  "\<exists>s'. generateJsdoc s = Inr s' \<and> jsdocGenerator s' = jsdocGenerator (lazyInstantiateJsdocGenerator s)
     \<and> activeTextEditor s' = activeTextEditor s
     \<and> events s' = events (lazyInstantiateJsdocGenerator s) @
         (case activeTextEditor s of
            None \<Rightarrow> [ShowErrorMessage ''Unable to generate JSDoc: no editor has been selected.'']
          | Some ed \<Rightarrow> [Call_generateJsdoc (the (jsdocGenerator (lazyInstantiateJsdocGenerator s))) ed])"
  using lazyInstantiate_defined [of s]
  by (auto simp: generateJsdoc_def Let_def lazyInstantiate_editor split: option.splits)

lemma generateJsdocFile_Inr:
  "\<exists>s'. generateJsdocFile s = Inr s' \<and> jsdocGenerator s' = jsdocGenerator (lazyInstantiateJsdocGenerator s)
     \<and> activeTextEditor s' = activeTextEditor s
     \<and> events s' = events (lazyInstantiateJsdocGenerator s) @
         (case activeTextEditor s of
            None \<Rightarrow> [ShowErrorMessage ''Unable to generate JSDoc: no editor has been selected.'']
          | Some ed \<Rightarrow> [Call_generateJsdocFile (the (jsdocGenerator (lazyInstantiateJsdocGenerator s))) ed])"
  using lazyInstantiate_defined [of s]
  by (auto simp: generateJsdocFile_def Let_def lazyInstantiate_editor split: option.splits)

lemma generateJsdocFiles_Inr:
  "\<exists>s'. generateJsdocFiles s = Inr s' \<and> jsdocGenerator s' = jsdocGenerator (lazyInstantiateJsdocGenerator s)
     \<and> activeTextEditor s' = activeTextEditor s
     \<and> events s' = events (lazyInstantiateJsdocGenerator s) @
         [ShowWarningMessage ''This function is not available yet.'']"
  by (simp add: generateJsdocFiles_def Let_def lazyInstantiate_editor)

lemma do_step_consistent:
  assumes "consistent s"
  shows "\<exists>s'. do_step x s = Inr s' \<and> consistent s'"
proof (cases x)
  case Run_generateJsdoc
  from generateJsdoc_Inr [of s] obtain s' where s': "generateJsdoc s = Inr s'"
    "jsdocGenerator s' = jsdocGenerator (lazyInstantiateJsdocGenerator s)"
    "events s' = events (lazyInstantiateJsdocGenerator s) @
         (case activeTextEditor s of
            None \<Rightarrow> [ShowErrorMessage ''Unable to generate JSDoc: no editor has been selected.'']
          | Some ed \<Rightarrow> [Call_generateJsdoc (the (jsdocGenerator (lazyInstantiateJsdocGenerator s))) ed])"
    by blast
  with consistent_lazy [OF assms] have "consistent s'"
    by (simp add: consistent_def constructions_def split: option.splits)
  with s'(1) Run_generateJsdoc show ?thesis by simp
next
  case Run_generateJsdocFile
  from generateJsdocFile_Inr [of s] obtain s' where s': "generateJsdocFile s = Inr s'"
    "jsdocGenerator s' = jsdocGenerator (lazyInstantiateJsdocGenerator s)"
    "events s' = events (lazyInstantiateJsdocGenerator s) @
         (case activeTextEditor s of
            None \<Rightarrow> [ShowErrorMessage ''Unable to generate JSDoc: no editor has been selected.'']
          | Some ed \<Rightarrow> [Call_generateJsdocFile (the (jsdocGenerator (lazyInstantiateJsdocGenerator s))) ed])"
    by blast
  with consistent_lazy [OF assms] have "consistent s'"
    by (simp add: consistent_def constructions_def split: option.splits)
  with s'(1) Run_generateJsdocFile show ?thesis by simp
next
  case Run_generateJsdocFiles
  from generateJsdocFiles_Inr [of s] obtain s' where s': "generateJsdocFiles s = Inr s'"
    "jsdocGenerator s' = jsdocGenerator (lazyInstantiateJsdocGenerator s)"
    "events s' = events (lazyInstantiateJsdocGenerator s) @
         [ShowWarningMessage ''This function is not available yet.'']"
    by blast
  with consistent_lazy [OF assms] have "consistent s'"
    by (simp add: consistent_def constructions_def)
  with s'(1) Run_generateJsdocFiles show ?thesis by simp
next
  case (Host_sets_editor ed)
  with assms show ?thesis by (simp add: consistent_def constructions_def)
qed

lemma run_consistent:
  "consistent s \<Longrightarrow> \<exists>s'. run xs s = Inr s' \<and> consistent s'"
proof (induction xs arbitrary: s)
  case Nil
  then show ?case by simp
next
  case (Cons x xs)
  from do_step_consistent [OF Cons.prems, of x] obtain s1
    where "do_step x s = Inr s1" and "consistent s1" by blast
  with Cons.IH [of s1] show ?case by simp
qed

lemma at_most_one_generator:
  "\<exists>s'. run xs (initial_state ed) = Inr s' \<and> constructions s' \<le> 1"
proof -
  have "consistent (initial_state ed)"
    by (simp add: consistent_def constructions_def initial_state_def)
  from run_consistent [OF this, of xs] show ?thesis
    by (auto simp: consistent_def split: if_splits)
qed

section \<open>The completion provider\<close>

lemma lineAt_in_range: "n < length (lines doc) \<Longrightarrow> lineAt doc n = Inr (lines doc ! n)"
  by (simp add: lineAt_def)

lemma new_item_eq:
  "\<exists>r. retrieveRange ln pos = Inr r \<and>
     new_GenerateJsdocCompletionItem ln pos =
       Inr \<lparr>label = ''/** Autogenerated JSDoc */'', kind = Snippet, insertText = [],
            sortText = [CHR 0x00], itemRange = r,
            command = \<lparr>title = ''Generate JSDoc'',
                       command = ''jsdoc-generator.generateJsdoc''\<rparr>\<rparr>"
  by (simp add: new_GenerateJsdocCompletionItem_def retrieveRange_eq)

lemma js_match_trigger_None: "js_match s trigger_re = None \<longleftrightarrow> \<not> is_trigger s"
  using js_match_trigger [of s] by blast

lemma provideCompletionItems_eq:
  "provideCompletionItems doc pos token =
     (case lineAt doc (line pos) of
        Inl e \<Rightarrow> Inl e
      | Inr ln \<Rightarrow>
          if is_trigger (take (character pos) ln)
          then (case new_GenerateJsdocCompletionItem ln pos of
                  Inl e \<Rightarrow> Inl e | Inr item \<Rightarrow> Inr (Some [item]))
          else Inr None)"
  by (cases "lineAt doc (line pos)")
    (simp_all add: provideCompletionItems_def Let_def slice_to_def js_match_trigger_None)

section \<open>The claims\<close>

subsection \<open>The range of the completion item\<close>

text \<open>
  C1.  For every line and every cursor position, \<open>retrieveRange\<close> returns the range that
  starts \<open>length p\<close> characters before the cursor and ends \<open>length q\<close> characters after
  it, on the cursor's line, where \<open>p\<close> is the comment opener (a slash, asterisks, white
  space) that ends the text before the cursor and \<open>q\<close> is the comment closer (white
  space, asterisks, a slash) that begins the text after it.  Each of them is the only
  text of its shape there, and is empty when there is none, so the range does not
  extend on a side without a delimiter.  In the scenario of the spec, with \<open>/**\<close> before
  the cursor and \<open>*/\<close> after it (white space allowed between them on either side of the
  cursor), the range is exactly the span from the slash of \<open>/**\<close> to the slash of \<open>*/\<close>,
  whatever precedes and follows on the line.
\<close>

theorem retrieveRange_consumes_delimiters:
  "\<exists>p q.
      retrieveRange ln pos =
        Inr \<lparr>rstart = \<lparr>line = line pos, character = character pos - length p\<rparr>,
             rend = \<lparr>line = line pos, character = character pos + length q\<rparr>\<rparr>
    \<and> length p \<le> character pos
    \<and> suffix p (take (character pos) ln)
    \<and> prefix q (drop (character pos) ln)
    \<and> (if \<exists>w. suffix w (take (character pos) ln) \<and> is_opener w
        then is_opener p \<and> (\<forall>w. suffix w (take (character pos) ln) \<and> is_opener w \<longrightarrow> w = p)
        else p = [])
    \<and> (if \<exists>w. prefix w (drop (character pos) ln) \<and> is_closer w
        then is_closer q \<and> (\<forall>w. prefix w (drop (character pos) ln) \<and> is_closer w \<longrightarrow> w = q)
        else q = [])
    \<and> (\<forall>pre a b post.
          spaces a \<and> spaces b
          \<and> ln = pre @ [slash, asterisk, asterisk] @ a @ b @ [asterisk, slash] @ post
          \<and> character pos = length pre + 3 + length a
          \<longrightarrow> retrieveRange ln pos =
                Inr \<lparr>rstart = \<lparr>line = line pos, character = length pre\<rparr>,
                     rend = \<lparr>line = line pos,
                             character = length pre + 3 + length a + length b + 2\<rparr>\<rparr>)"
proof -
  let ?p = "opener_before ln pos" and ?q = "closer_after ln pos"
  have pos_upd: "\<And>n. pos\<lparr>character := n\<rparr> = \<lparr>line = line pos, character = n\<rparr>"
    by (cases pos) simp
  have r: "retrieveRange ln pos =
        Inr \<lparr>rstart = \<lparr>line = line pos, character = character pos - length ?p\<rparr>,
             rend = \<lparr>line = line pos, character = character pos + length ?q\<rparr>\<rparr>"
    by (simp add: retrieveRange_eq pos_upd)
  have op: "if \<exists>w. suffix w (take (character pos) ln) \<and> is_opener w
        then is_opener ?p \<and> (\<forall>w. suffix w (take (character pos) ln) \<and> is_opener w \<longrightarrow> w = ?p)
        else ?p = []"
    using opener_before_cases [of pos ln] opener_before_unique [of _ pos ln]
    by (auto split: if_splits)
  have cl: "if \<exists>w. prefix w (drop (character pos) ln) \<and> is_closer w
        then is_closer ?q \<and> (\<forall>w. prefix w (drop (character pos) ln) \<and> is_closer w \<longrightarrow> w = ?q)
        else ?q = []"
    using closer_after_cases [of pos ln] closer_after_unique [of _ pos ln]
    by (auto split: if_splits)
  have sc: "\<forall>pre a b post.
          spaces a \<and> spaces b
          \<and> ln = pre @ [slash, asterisk, asterisk] @ a @ b @ [asterisk, slash] @ post
          \<and> character pos = length pre + 3 + length a
          \<longrightarrow> retrieveRange ln pos =
                Inr \<lparr>rstart = \<lparr>line = line pos, character = length pre\<rparr>,
                     rend = \<lparr>line = line pos,
                             character = length pre + 3 + length a + length b + 2\<rparr>\<rparr>"
    using retrieveRange_scenario [of _ _ ln _ _ pos] by (simp add: pos_upd)
  from r opener_before_length [of ln pos] opener_before_suffix [of ln pos]
    closer_after_prefix [of ln pos] op cl sc
  show ?thesis by blast
qed

theorem retrieveRange_consumes_delimiters_witness:
  "retrieveRange [0x2F, 0x2A, 0x2A, 0x20, 0x2A, 0x2F] \<lparr>line = 7, character = 3\<rparr> =
     Inr \<lparr>rstart = \<lparr>line = 7, character = 0\<rparr>, rend = \<lparr>line = 7, character = 6\<rparr>\<rparr>"
proof -
  let ?ln = "[0x2F, 0x2A, 0x2A, 0x20, 0x2A, 0x2F] :: jstring"
  let ?pos = "\<lparr>line = 7, character = 3\<rparr>"
  from retrieveRange_consumes_delimiters [of ?ln ?pos]
  have "\<forall>pre a b post.
          spaces a \<and> spaces b
          \<and> ?ln = pre @ [slash, asterisk, asterisk] @ a @ b @ [asterisk, slash] @ post
          \<and> character ?pos = length pre + 3 + length a
          \<longrightarrow> retrieveRange ?ln ?pos =
                Inr \<lparr>rstart = \<lparr>line = line ?pos, character = length pre\<rparr>,
                     rend = \<lparr>line = line ?pos,
                             character = length pre + 3 + length a + length b + 2\<rparr>\<rparr>"
    by blast
  from this [rule_format, of "[]" "[0x20]" "[]" "[]"]
  show ?thesis by (simp add: spaces_def isSpace_def slash_def asterisk_def)
qed

text \<open>
  C3.  For every line and position, both ends of the range returned by \<open>retrieveRange\<close>
  are on the position's line, so the range contains no position of any other line, in
  particular none of a declaration that starts on another line.
\<close>

theorem retrieveRange_stays_on_line:
  "\<exists>r. retrieveRange ln pos = Inr r
      \<and> line (rstart r) = line pos \<and> line (rend r) = line pos
      \<and> (\<forall>q. line q \<noteq> line pos \<longrightarrow> \<not> contains r q)"
  by (auto simp: retrieveRange_eq contains_def isBeforeOrEqual_def)

theorem retrieveRange_stays_on_line_witness:
  "\<exists>r. retrieveRange [0x2F, 0x2A, 0x2A, 0x20, 0x2A, 0x2F] \<lparr>line = 7, character = 4\<rparr> = Inr r
      \<and> line (rstart r) = 7 \<and> line (rend r) = 7
      \<and> \<not> contains r \<lparr>line = 8, character = 0\<rparr>"
  using retrieveRange_stays_on_line
    [of "[0x2F, 0x2A, 0x2A, 0x20, 0x2A, 0x2F]" "\<lparr>line = 7, character = 4\<rparr>"]
  by auto

text \<open>
  C10.  For a position whose character index is at most the length of the line,
  \<open>retrieveRange\<close> returns a range (neither translation of the position raises) on the
  position's line that contains the position: it starts at or before the position's
  character and ends at or after it, within the line.  When the text before the cursor
  ends in no opener and the text after it begins with no closer, the range is empty at
  the position.
\<close>

theorem retrieveRange_well_formed:
  assumes "character pos \<le> length ln"
  shows "\<exists>r. retrieveRange ln pos = Inr r
      \<and> (\<exists>a. translate pos 0 (case js_match (slice_to ln (character pos)) opener_re of
                                 Some m \<Rightarrow> - int (length m) | None \<Rightarrow> 0) = Inr a)
      \<and> line (rstart r) = line pos \<and> line (rend r) = line pos
      \<and> character (rstart r) \<le> character pos
      \<and> character pos \<le> character (rend r)
      \<and> character (rend r) \<le> length ln
      \<and> contains r pos
      \<and> (\<not> (\<exists>w. suffix w (take (character pos) ln) \<and> is_opener w)
          \<and> \<not> (\<exists>w. prefix w (drop (character pos) ln) \<and> is_closer w)
          \<longrightarrow> r = \<lparr>rstart = pos, rend = pos\<rparr>)"
proof -
  let ?p = "opener_before ln pos" and ?q = "closer_after ln pos"
  have "length ?q \<le> length (drop (character pos) ln)"
    by (rule prefix_length_le) (rule closer_after_prefix)
  with assms have q: "character pos + length ?q \<le> length ln" by simp
  have tr: "translate pos 0 (case js_match (slice_to ln (character pos)) opener_re of
                                 Some m \<Rightarrow> - int (length m) | None \<Rightarrow> 0)
        = Inr (pos\<lparr>character := character pos - length ?p\<rparr>)"
    using translate_back [OF opener_before_length [of ln pos]]
    by (simp add: opener_before_def split: option.splits)
  have none: "\<not> (\<exists>w. suffix w (take (character pos) ln) \<and> is_opener w)
          \<and> \<not> (\<exists>w. prefix w (drop (character pos) ln) \<and> is_closer w)
          \<longrightarrow> ?p = [] \<and> ?q = []"
    using opener_before_cases [of pos ln] closer_after_cases [of pos ln]
    by (auto split: if_splits)
  show ?thesis
    unfolding retrieveRange_eq tr using q none
    by (auto simp: contains_def isBeforeOrEqual_def)
qed

theorem retrieveRange_well_formed_witness:
  "character \<lparr>line = 2, character = 1\<rparr> \<le> length [0x61, 0x62 :: code_unit]
   \<and> retrieveRange [0x61, 0x62] \<lparr>line = 2, character = 1\<rparr>
       = Inr \<lparr>rstart = \<lparr>line = 2, character = 1\<rparr>, rend = \<lparr>line = 2, character = 1\<rparr>\<rparr>"
proof -
  have h: "character \<lparr>line = 2, character = 1\<rparr> \<le> length [0x61, 0x62 :: code_unit]" by simp
  have "js_match [0x61] opener_re = None"
    by (simp add: js_match_def opener_re_def slash_def)
  then have n1: "\<not> (\<exists>w. suffix w (take (character \<lparr>line = 2, character = 1\<rparr>) [0x61, 0x62])
      \<and> is_opener w)"
    using js_match_opener_None [of "[0x61]"] by auto
  have "js_match [0x62] closer_re = None"
    by (simp add: js_match_def closer_re_def slash_def asterisk_def isSpace_def)
  then have n2: "\<not> (\<exists>w. prefix w (drop (character \<lparr>line = 2, character = 1\<rparr>) [0x61, 0x62])
      \<and> is_closer w)"
    using js_match_closer_None [of "[0x62]"] by auto
  from retrieveRange_well_formed [OF h] n1 n2 h show ?thesis by auto
qed

subsection \<open>The completion provider\<close>



text \<open>
  C9.  For a position on a line of the document, the provider returns \<open>null\<close> or a list
  of exactly one item, whose insertion text is empty, whose sort text is the single
  character with code 0, and whose command is \<open>jsdoc-generator.generateJsdoc\<close>.
\<close>

theorem completion_item_shape:
  assumes "line pos < length (lines doc)"
  shows "provideCompletionItems doc pos token = Inr None
       \<or> (\<exists>item. provideCompletionItems doc pos token = Inr (Some [item])
             \<and> insertText item = []
             \<and> sortText item = [CHR 0x00]
             \<and> command.command (completionItem.command item) = ''jsdoc-generator.generateJsdoc'')"
  using new_item_eq [of "lines doc ! line pos" pos]
  by (auto simp: provideCompletionItems_eq lineAt_in_range [OF assms])

theorem completion_item_shape_witness:
  "line \<lparr>line = 0, character = 3\<rparr> < length (lines \<lparr>lines = [[0x2F, 0x2A, 0x2A]]\<rparr>)
   \<and> (\<exists>item. provideCompletionItems \<lparr>lines = [[0x2F, 0x2A, 0x2A]]\<rparr>
                \<lparr>line = 0, character = 3\<rparr> () = Inr (Some [item])
             \<and> insertText item = []
             \<and> sortText item = [CHR 0x00]
             \<and> command.command (completionItem.command item) = ''jsdoc-generator.generateJsdoc'')"
proof -
  let ?doc = "\<lparr>lines = [[0x2F, 0x2A, 0x2A]]\<rparr>" and ?pos = "\<lparr>line = 0, character = 3\<rparr>"
  have h: "line ?pos < length (lines ?doc)" by simp
  have "js_match [0x2F, 0x2A, 0x2A] trigger_re \<noteq> None"
    by (simp add: js_match_def trigger_re_def slash_def asterisk_def isSpace_def)
  then have "provideCompletionItems ?doc ?pos () \<noteq> Inr None"
    by (simp add: provideCompletionItems_def lineAt_def slice_to_def Let_def split: sum.splits)
  with completion_item_shape [OF h, of "()"] h show ?thesis by blast
qed

subsection \<open>The commands\<close>

text \<open>
  C4.  The handlers of the commands \<open>generateJsdoc\<close> and \<open>generateJsdocFile\<close>, in every
  state: without an active editor the handler shows the error message and calls neither
  generation entry point; with an active editor it calls its own entry point exactly
  once, on the module's generator and with that editor, and shows no message.  Apart
  from the lazy construction of the generator, that is all the handler does.
\<close>

theorem commands_need_active_editor:
  "(case activeTextEditor s of
      None \<Rightarrow>
        (\<exists>s' evs. generateJsdoc s = Inr s' \<and> events s' = events s @ evs
            \<and> filter is_generation evs = []
            \<and> filter (\<lambda>e. \<not> is_construction e) evs =
                [ShowErrorMessage ''Unable to generate JSDoc: no editor has been selected.''])
        \<and> (\<exists>s' evs. generateJsdocFile s = Inr s' \<and> events s' = events s @ evs
            \<and> filter is_generation evs = []
            \<and> filter (\<lambda>e. \<not> is_construction e) evs =
                [ShowErrorMessage ''Unable to generate JSDoc: no editor has been selected.''])
    | Some ed \<Rightarrow>
        (\<exists>s' evs g. generateJsdoc s = Inr s' \<and> events s' = events s @ evs
            \<and> jsdocGenerator s' = Some g
            \<and> filter is_generation evs = [Call_generateJsdoc g ed]
            \<and> filter (\<lambda>e. \<not> is_construction e) evs = [Call_generateJsdoc g ed])
        \<and> (\<exists>s' evs g. generateJsdocFile s = Inr s' \<and> events s' = events s @ evs
            \<and> jsdocGenerator s' = Some g
            \<and> filter is_generation evs = [Call_generateJsdocFile g ed]
            \<and> filter (\<lambda>e. \<not> is_construction e) evs = [Call_generateJsdocFile g ed]))"
proof -
  obtain g where g: "jsdocGenerator (lazyInstantiateJsdocGenerator s) = Some g"
    using lazyInstantiate_defined by blast
  obtain s1 where s1: "generateJsdoc s = Inr s1"
      "jsdocGenerator s1 = jsdocGenerator (lazyInstantiateJsdocGenerator s)"
      "events s1 = events (lazyInstantiateJsdocGenerator s) @
         (case activeTextEditor s of
            None \<Rightarrow> [ShowErrorMessage ''Unable to generate JSDoc: no editor has been selected.'']
          | Some ed \<Rightarrow> [Call_generateJsdoc (the (jsdocGenerator (lazyInstantiateJsdocGenerator s))) ed])"
    using generateJsdoc_Inr [of s] by blast
  obtain s2 where s2: "generateJsdocFile s = Inr s2"
      "jsdocGenerator s2 = jsdocGenerator (lazyInstantiateJsdocGenerator s)"
      "events s2 = events (lazyInstantiateJsdocGenerator s) @
         (case activeTextEditor s of
            None \<Rightarrow> [ShowErrorMessage ''Unable to generate JSDoc: no editor has been selected.'']
          | Some ed \<Rightarrow> [Call_generateJsdocFile (the (jsdocGenerator (lazyInstantiateJsdocGenerator s))) ed])"
    using generateJsdocFile_Inr [of s] by blast
  show ?thesis
  proof (cases "activeTextEditor s")
    case None
    with s1 s2 show ?thesis
      by (simp add: lazyInstantiate_events)
  next
    case (Some ed)
    with s1 s2 g show ?thesis
      by (simp add: lazyInstantiate_events)
  qed
qed

text \<open>
  C5.  The handler of \<open>generateJsdocFiles\<close>, in every state: it calls no generation entry
  point; apart from the lazy construction of the generator, all it does is show the
  warning that the function is not available; and the active editor (with its
  document) is what it was.
\<close>

theorem generateJsdocFiles_only_warns:
  "\<exists>s' evs. generateJsdocFiles s = Inr s' \<and> events s' = events s @ evs
      \<and> filter is_generation evs = []
      \<and> filter (\<lambda>e. \<not> is_construction e) evs =
          [ShowWarningMessage ''This function is not available yet.'']
      \<and> activeTextEditor s' = activeTextEditor s"
  using generateJsdocFiles_Inr [of s] by (auto simp: lazyInstantiate_events)

text \<open>
  C6.  \<open>lazyInstantiateJsdocGenerator\<close> is idempotent: a second call changes nothing.  After
  a call the module variable holds a generator; a call on an undefined variable
  constructs one instance and stores it, a call on a defined variable is the identity;
  any positive number of calls equals one call and constructs at most one instance.
  Over any run of the commands from the freshly loaded module, at most one instance is
  ever constructed.
\<close>

theorem lazyInstantiateJsdocGenerator_idempotent:
  "lazyInstantiateJsdocGenerator (lazyInstantiateJsdocGenerator s) = lazyInstantiateJsdocGenerator s
   \<and> (\<exists>g. jsdocGenerator (lazyInstantiateJsdocGenerator s) = Some g)
   \<and> (if jsdocGenerator s = None
       then \<exists>g. lazyInstantiateJsdocGenerator s =
              s\<lparr>jsdocGenerator := Some g, events := events s @ [New_JsdocGenerator g]\<rparr>
       else lazyInstantiateJsdocGenerator s = s)
   \<and> (lazyInstantiateJsdocGenerator ^^ Suc n) s = lazyInstantiateJsdocGenerator s
   \<and> constructions ((lazyInstantiateJsdocGenerator ^^ n) s) \<le> Suc (constructions s)
   \<and> (\<exists>s'. run xs (initial_state ed) = Inr s' \<and> constructions s' \<le> 1)"
proof -
  have last: "constructions ((lazyInstantiateJsdocGenerator ^^ n) s) \<le> Suc (constructions s)"
  proof (cases n)
    case 0
    then show ?thesis by simp
  next
    case (Suc m)
    then show ?thesis
      by (simp only: lazyInstantiate_iterate) (simp add: lazyInstantiate_events constructions_def)
  qed
  have first: "if jsdocGenerator s = None
       then \<exists>g. lazyInstantiateJsdocGenerator s =
              s\<lparr>jsdocGenerator := Some g, events := events s @ [New_JsdocGenerator g]\<rparr>
       else lazyInstantiateJsdocGenerator s = s"
    by (auto simp: lazyInstantiateJsdocGenerator_def Let_def)
  from last first lazyInstantiate_twice [of s] lazyInstantiate_defined [of s]
    lazyInstantiate_iterate [of n s] at_most_one_generator [of xs ed]
  show ?thesis by blast
qed

subsection \<open>Configuration\<close>

text \<open>
  C7.  \<open>getConfig\<close> returns the value stored in the host configuration under the given
  name when there is one, and the caller's default value when there is none.
\<close>

theorem getConfig_value_or_default:
  "(\<forall>v. configuration configurationName = Some v
        \<longrightarrow> getConfig configuration configurationName defaultValue = v)
   \<and> (configuration configurationName = None
        \<longrightarrow> getConfig configuration configurationName defaultValue = defaultValue)"
  by (simp add: getConfig_def config_get_def)

theorem getConfig_value_or_default_witness:
  "getConfig [''jsdoc-generator.author'' \<mapsto> ''me''] ''jsdoc-generator.author'' ''nobody'' = ''me''
   \<and> getConfig [''jsdoc-generator.author'' \<mapsto> ''me''] ''jsdoc-generator.emptyLine'' ''nobody''
       = ''nobody''"
  using getConfig_value_or_default
      [of "[''jsdoc-generator.author'' \<mapsto> ''me'']" "''jsdoc-generator.author''" "''nobody''"]
    getConfig_value_or_default
      [of "[''jsdoc-generator.author'' \<mapsto> ''me'']" "''jsdoc-generator.emptyLine''" "''nobody''"]
  by simp

end
